theory Spec2Isabelle
  imports Main
begin

section \<open>The record model (pkg/models)\<close>

text \<open>
  \<^verbatim>\<open>type LogLevel string\<close> with its five constants. The handlers only ever store one of
  the five constants, so the level is a datatype.
\<close>

datatype LogLevel = LevelDebug | LevelInfo | LevelWarning | LevelError | LevelCritical

text \<open>
  The values of \<^verbatim>\<open>map[string]interface{}\<close>: what a producer stores (strings, for the
  syslog source) or what the JSON decoder delivers (for the HTTP source).
\<close>

datatype fvalue =
    VNull
  | VBool bool
  | VNum int
  | VStr string
  | VList "fvalue list"
  | VMap "(string \<times> fvalue) list"

text \<open>
  \<^verbatim>\<open>type LogEntry struct\<close>. Strings are byte sequences, as in Go. A time instant is an
  integer (nanoseconds on some clock); the clock reading is an argument of every
  function that calls \<^verbatim>\<open>time.Now()\<close>.
\<close>

record LogEntry =
  ID :: string
  Timestamp :: int
  Level :: LogLevel
  Source :: string
  Message :: string
  Fields :: "string \<rightharpoonup> fvalue"

text \<open>
  \<^verbatim>\<open>NewLogEntry\<close> fills in \<^verbatim>\<open>Timestamp\<close>, \<^verbatim>\<open>Level\<close> and \<^verbatim>\<open>Fields\<close>; every other field keeps
  Go's zero value, the empty string.
\<close>

definition NewLogEntry :: "int \<Rightarrow> LogEntry" where
  "NewLogEntry now =
     \<lparr>ID = [], Timestamp = now, Level = LevelInfo, Source = [], Message = [],
      Fields = Map.empty\<rparr>"

section \<open>The functions of Go's \<^verbatim>\<open>strings\<close> package that the sources call\<close>

text \<open>\<^verbatim>\<open>len(s) >= len(prefix) && s[:len(prefix)] == prefix\<close>\<close>

definition HasPrefix :: "string \<Rightarrow> string \<Rightarrow> bool" where
  "HasPrefix s pre = (length pre \<le> length s \<and> take (length pre) s = pre)"

text \<open>
  \<^verbatim>\<open>strings.Index\<close>: the byte index of the first instance of \<open>sub\<close> in \<open>s\<close>, or \<open>-1\<close>.
\<close>

fun Index :: "string \<Rightarrow> string \<Rightarrow> int" where
  "Index [] sub = (if sub = [] then 0 else - 1)"
| "Index (c # t) sub =
     (if HasPrefix (c # t) sub then 0
      else (let i = Index t sub in if i < 0 then - 1 else i + 1))"

text \<open>\<^verbatim>\<open>strings.Contains\<close> is \<^verbatim>\<open>Index(s, substr) >= 0\<close>.\<close>

definition Contains :: "string \<Rightarrow> string \<Rightarrow> bool" where
  "Contains s sub = (0 \<le> Index s sub)"

text \<open>
  \<^verbatim>\<open>strings.ToLower\<close>, as Go's library writes it. It first looks for a byte of 128 or
  more. A string without one is lower-cased byte by byte: \<open>A\<close> to \<open>Z\<close> (65 to 90) move to
  \<open>a\<close> to \<open>z\<close>, and every other byte stays. Any other string goes through
  \<^verbatim>\<open>Map(unicode.ToLower, s)\<close>, which decodes the runes of the string and applies the
  Unicode case tables (so that U+0130 becomes \<open>i\<close>). Those tables are not part of the
  repository: that function is the argument \<open>mapLower\<close>, and whatever is proved holds for
  every value of it.
\<close>

definition isASCII :: "string \<Rightarrow> bool" where
  "isASCII s = list_all (\<lambda>c. (of_char c :: nat) < 128) s"

definition lowerByte :: "char \<Rightarrow> char" where
  "lowerByte c =
     (let n = (of_char c :: nat) in if 65 \<le> n \<and> n \<le> 90 then char_of (n + 32) else c)"

definition ToLower :: "(string \<Rightarrow> string) \<Rightarrow> string \<Rightarrow> string" where
  "ToLower mapLower s = (if isASCII s then map lowerByte s else mapLower s)"

text \<open>
  A closed example needs some value for \<open>mapLower\<close>. The examples below are all ASCII, on
  which \<^verbatim>\<open>ToLower\<close> never calls it; this one returns its argument.
\<close>

definition noTables :: "string \<Rightarrow> string" where
  "noTables s = s"

text \<open>The slice expression \<^verbatim>\<open>s[i:j]\<close> for \<open>i \<le> j \<le> len(s)\<close>, and \<^verbatim>\<open>s[i:]\<close> is \<open>drop i s\<close>.\<close>

definition slice :: "string \<Rightarrow> nat \<Rightarrow> nat \<Rightarrow> string" where
  "slice s i j = take (j - i) (drop i s)"

section \<open>The syslog source (syslog\_receiver.go)\<close>

datatype listener = UDPConn | TCPListener

record SyslogReceiver =
  sr_addr :: string
  protocol :: string
  sr_listener :: "listener option"
  sr_running :: bool

text \<open>
  \<^verbatim>\<open>parseSyslogMessage\<close>, in the order of the source: the entry with its source tag and
  message, the optional priority (which also reassigns the local \<^verbatim>\<open>raw\<close>), the \<^verbatim>\<open>raw\<close>
  field, and the level switch on the lower-cased \<^verbatim>\<open>raw\<close>.
\<close>

definition parseSyslogMessage ::
  "(string \<Rightarrow> string) \<Rightarrow> SyslogReceiver \<Rightarrow> int \<Rightarrow> string \<Rightarrow> LogEntry"
where
  "parseSyslogMessage mapLower sr now raw =
     (let entry = (NewLogEntry now)\<lparr>Source := ''syslog:'' @ protocol sr, Message := raw\<rparr>;
          (entry, raw) =
            (if HasPrefix raw ''<''
             then (let endIdx = Index raw ''>'' in
                   if endIdx > 0 \<and> endIdx < 10
                   then (entry\<lparr>Fields := (Fields entry)
                            (''priority'' \<mapsto> VStr (slice raw 1 (nat endIdx)))\<rparr>,
                         drop (nat (endIdx + 1)) raw)
                   else (entry, raw))
             else (entry, raw));
          entry = entry\<lparr>Fields := (Fields entry)(''raw'' \<mapsto> VStr raw)\<rparr>;
          lowerMsg = ToLower mapLower raw
      in entry\<lparr>Level :=
           (if Contains lowerMsg ''crit'' \<or> Contains lowerMsg ''emerg''
               \<or> Contains lowerMsg ''alert'' then LevelCritical
            else if Contains lowerMsg ''err'' \<or> Contains lowerMsg ''error'' then LevelError
            else if Contains lowerMsg ''warn'' then LevelWarning
            else if Contains lowerMsg ''debug'' then LevelDebug
            else LevelInfo)\<rparr>)"

text \<open>
  \<^verbatim>\<open>NewSyslogReceiver\<close> lower-cases the protocol string once, at construction.
\<close>

definition NewSyslogReceiver :: "(string \<Rightarrow> string) \<Rightarrow> string \<Rightarrow> string \<Rightarrow> SyslogReceiver" where
  "NewSyslogReceiver mapLower a p =
     \<lparr>sr_addr = a, protocol = ToLower mapLower p, sr_listener = None, sr_running = False\<rparr>"

text \<open>
  What \<^verbatim>\<open>Start\<close> of a source can return. The network is an argument: for a protocol and an
  address it says whether resolving and binding succeed.
\<close>

datatype start_error =
    AlreadyRunning
  | OpenFailed
  | SeekFailed
  | ResolveFailed
  | ListenFailed
  | UnsupportedProtocol

datatype net_outcome = NetOK | ResolveFails | ListenFails

definition startUDP ::
  "(string \<Rightarrow> string \<Rightarrow> net_outcome) \<Rightarrow> SyslogReceiver \<Rightarrow> start_error option \<times> SyslogReceiver"
where
  "startUDP net sr =
     (case net ''udp'' (sr_addr sr) of
        ResolveFails \<Rightarrow> (Some ResolveFailed, sr)
      | ListenFails \<Rightarrow> (Some ListenFailed, sr)
      | NetOK \<Rightarrow> (None, sr\<lparr>sr_listener := Some UDPConn\<rparr>))"

definition startTCP ::
  "(string \<Rightarrow> string \<Rightarrow> net_outcome) \<Rightarrow> SyslogReceiver \<Rightarrow> start_error option \<times> SyslogReceiver"
where
  "startTCP net sr =
     (case net ''tcp'' (sr_addr sr) of
        NetOK \<Rightarrow> (None, sr\<lparr>sr_listener := Some TCPListener\<rparr>)
      | _ \<Rightarrow> (Some ListenFailed, sr))"

text \<open>
  \<^verbatim>\<open>SyslogReceiver.Start\<close>: the flag is tested and set under the lock, then the protocol
  switch runs; the result is the error (if any) and the receiver as \<^verbatim>\<open>Start\<close> leaves it.
\<close>

definition SyslogReceiver_Start ::
  "(string \<Rightarrow> string \<Rightarrow> net_outcome) \<Rightarrow> SyslogReceiver \<Rightarrow> start_error option \<times> SyslogReceiver"
where
  "SyslogReceiver_Start net sr =
     (if sr_running sr then (Some AlreadyRunning, sr)
      else (let sr = sr\<lparr>sr_running := True\<rparr> in
            if protocol sr = ''udp'' then startUDP net sr
            else if protocol sr = ''tcp'' then startTCP net sr
            else (Some UnsupportedProtocol, sr)))"







section \<open>The file source (file\_reader.go)\<close>

text \<open>
  An open \<^verbatim>\<open>*os.File\<close>: its read position and whether it has been closed. The file system
  maps a path to what \<^verbatim>\<open>os.Open\<close> finds there: nothing, or a file with its bytes and
  whether it can seek (a pipe cannot). The offset is an \<^verbatim>\<open>int64\<close> in the source and an
  unbounded integer here: no file reaches \<open>2\<^sup>6\<^sup>3\<close> bytes.
\<close>

record osfile =
  fpos :: nat
  closed :: bool

record fsnode =
  bytes :: string
  seekable :: bool

record FileReader =
  filepath :: string
  offset :: int
  pollPeriod :: int
  file' :: "osfile option"
  running :: bool

definition NewFileReader :: "string \<Rightarrow> FileReader" where
  "NewFileReader path =
     \<lparr>filepath = path, offset = 0, pollPeriod = 100, file' = None, running = False\<rparr>"

text \<open>
  \<^verbatim>\<open>FileReader.Start\<close>. After a successful return the read loop runs on the opened file.
\<close>

definition FileReader_Start ::
  "(string \<rightharpoonup> fsnode) \<Rightarrow> FileReader \<Rightarrow> start_error option \<times> FileReader"
where
  "FileReader_Start fs fr =
     (if running fr then (Some AlreadyRunning, fr)
      else (let fr = fr\<lparr>running := True\<rparr> in
            case fs (filepath fr) of
              None \<Rightarrow> (Some OpenFailed, fr)
            | Some node \<Rightarrow>
                (let fr = fr\<lparr>file' := Some \<lparr>fpos = 0, closed = False\<rparr>\<rparr> in
                 if offset fr > 0
                 then (if seekable node
                       then (None, fr\<lparr>file' := Some \<lparr>fpos = nat (offset fr), closed = False\<rparr>\<rparr>)
                       else (Some SeekFailed, fr))
                 else (None, fr))))"

text \<open>
  \<^verbatim>\<open>FileReader.Stop\<close>: nothing when not running; otherwise the flag is cleared and the
  file, if there is one, closed. (The result of \<^verbatim>\<open>Close\<close> is not modelled.)
\<close>

definition FileReader_Stop :: "FileReader \<Rightarrow> FileReader" where
  "FileReader_Stop fr =
     (if \<not> running fr then fr
      else (let fr = fr\<lparr>running := False\<rparr> in
            case file' fr of
              None \<Rightarrow> fr
            | Some f \<Rightarrow> fr\<lparr>file' := Some (f\<lparr>closed := True\<rparr>)\<rparr>))"

definition GetOffset :: "FileReader \<Rightarrow> int" where
  "GetOffset fr = offset fr"

definition parseSimpleLine :: "FileReader \<Rightarrow> int \<Rightarrow> string \<Rightarrow> LogEntry" where
  "parseSimpleLine fr now line =
     (NewLogEntry now)\<lparr>Source := filepath fr, Message := line\<rparr>"

text \<open>
  \<^verbatim>\<open>bufio.Reader.ReadString('\n')\<close> on the bytes that are still unread. It returns the
  bytes up to and including the first newline and no error; when the data runs out
  first, it returns the bytes read so far together with the error of the underlying
  read, and those bytes are consumed from the reader all the same. The error at the end
  of the data is end-of-file for a healthy file, or some other read failure.
\<close>

datatype read_error = EOF | ReadFailure

fun ReadString :: "string \<Rightarrow> read_error \<Rightarrow> string \<times> read_error option \<times> string" where
  "ReadString [] e = ([], Some e, [])"
| "ReadString (c # cs) e =
     (if c = CHR 0x0A then ([c], None, cs)
      else (case ReadString cs e of (l, err, rest) \<Rightarrow> (c # l, err, rest)))"

text \<open>
  The state of the read loop: the reader, the number of bytes of the file that the
  buffered reader has consumed, and the entries sent on \<^verbatim>\<open>out\<close> so far. The consumer is
  taken to receive every entry offered, so the send case of the inner \<^verbatim>\<open>select\<close> is the
  one that fires; cancellation is observed at the outer \<^verbatim>\<open>select\<close>. The clock gives the
  reading of \<^verbatim>\<open>time.Now()\<close> for the \<open>i\<close>-th entry created.
\<close>

record loop_state =
  fr :: FileReader
  consumed :: nat
  emitted :: "LogEntry list"

datatype loop_exit = Break | Return

text \<open>
  The inner \<^verbatim>\<open>for\<close> of one tick, on the file's bytes at that tick: \<^verbatim>\<open>break\<close> at end-of-file,
  \<^verbatim>\<open>return\<close> at any other error, and otherwise the offset is advanced by the length of
  the line and the entry is sent.
\<close>

function readLines ::
  "(nat \<Rightarrow> int) \<Rightarrow> string \<Rightarrow> read_error \<Rightarrow> loop_state \<Rightarrow> loop_exit \<times> loop_state"
where
  "readLines clock content e s =
     (case ReadString (drop (consumed s) content) e of
        (line, Some err, rest) \<Rightarrow>
          (if err = EOF
           then (Break, s\<lparr>consumed := consumed s + length line\<rparr>)
           else (Return, s\<lparr>consumed := consumed s + length line\<rparr>))
      | (line, None, rest) \<Rightarrow>
          (let r = (fr s)\<lparr>offset := offset (fr s) + int (length line)\<rparr>;
               entry = parseSimpleLine r (clock (length (emitted s))) line
           in readLines clock content e
                (s\<lparr>fr := r, consumed := consumed s + length line,
                   emitted := emitted s @ [entry]\<rparr>)))"
  by pat_completeness auto

text \<open>
  What the loop's \<^verbatim>\<open>select\<close> receives: the cancellation of the context, or a tick, at
  which the file holds the given bytes and its reads end in the given error.
\<close>

datatype event = Cancel | Tick string read_error

text \<open>
  \<^verbatim>\<open>readLoop\<close> over the events that arrive. Every \<^verbatim>\<open>return\<close> runs the deferred
  \<^verbatim>\<open>fr.Stop()\<close>; when the events run out the loop is still waiting in its \<^verbatim>\<open>select\<close>.
\<close>

fun readLoop :: "(nat \<Rightarrow> int) \<Rightarrow> loop_state \<Rightarrow> event list \<Rightarrow> loop_state" where
  "readLoop clock s [] = s"
| "readLoop clock s (Cancel # es) = s\<lparr>fr := FileReader_Stop (fr s)\<rparr>"
| "readLoop clock s (Tick content e # es) =
     (case readLines clock content e s of
        (Return, s') \<Rightarrow> s'\<lparr>fr := FileReader_Stop (fr s')\<rparr>
      | (Break, s') \<Rightarrow> readLoop clock s' es)"

text \<open>
  The loop as \<^verbatim>\<open>Start\<close> launches it: the buffered reader begins at the position of the
  opened file.
\<close>

definition startLoop :: "FileReader \<Rightarrow> loop_state" where
  "startLoop r =
     \<lparr>fr = r, consumed = (case file' r of None \<Rightarrow> 0 | Some f \<Rightarrow> fpos f), emitted = []\<rparr>"

text \<open>The total byte length of the messages of a list of entries.\<close>

definition total_length :: "LogEntry list \<Rightarrow> int" where
  "total_length es = sum_list (map (\<lambda>x. int (length (Message x))) es)"

text \<open>A tick that finds only complete lines: the file is empty or ends in a newline.\<close>

fun whole_lines :: "event \<Rightarrow> bool" where
  "whole_lines Cancel = True"
| "whole_lines (Tick content e) = (content = [] \<or> last content = CHR 0x0A)"

text \<open>A file system with one regular file, \<open>app.log\<close>, holding the given bytes.\<close>

definition appLog :: "string \<Rightarrow> (string \<rightharpoonup> fsnode)" where
  "appLog content = [''app.log'' \<mapsto> \<lparr>bytes = content, seekable = True\<rparr>]"

section \<open>The HTTP source (http\_receiver.go)\<close>

text \<open>
  The channel \<^verbatim>\<open>out\<close>: its buffered entries and its capacity. A send inside a \<^verbatim>\<open>select\<close>
  with a \<^verbatim>\<open>default\<close> case goes through when the buffer has room and is skipped
  otherwise (\<open>None\<close>: the send would have to wait). No other party touches the channel
  while a handler runs.
\<close>

record chan =
  buf :: "LogEntry list"
  cap :: nat

definition try_send :: "chan \<Rightarrow> LogEntry \<Rightarrow> chan option" where
  "try_send ch e =
     (if length (buf ch) < cap ch then Some (ch\<lparr>buf := buf ch @ [e]\<rparr>) else None)"

text \<open>
  The struct that \<^verbatim>\<open>json.Unmarshal\<close> fills: absent string members are empty, an absent
  \<^verbatim>\<open>fields\<close> member is the nil map. A request is its method and what reading and
  decoding its body give.
\<close>

record logData =
  ld_Level :: string
  ld_Message :: string
  ld_Source :: string
  ld_Fields :: "(string \<rightharpoonup> fvalue) option"

datatype 'a body = ReadError | InvalidJSON | Decoded 'a

record 'a request =
  Method :: string
  Body :: "'a body"

datatype payload =
    PlainText string
  | AcceptedID string
  | AcceptedBatch nat nat

record response =
  status :: nat
  payload :: payload

record HTTPReceiver =
  hr_addr :: string
  hr_server :: bool
  hr_running :: bool
  hr_out :: "chan option"

definition NewHTTPReceiver :: "string \<Rightarrow> HTTPReceiver" where
  "NewHTTPReceiver a = \<lparr>hr_addr = a, hr_server = False, hr_running = False, hr_out = None\<rparr>"

text \<open>
  \<^verbatim>\<open>HTTPReceiver.Start\<close> creates the server and returns; \<^verbatim>\<open>ListenAndServe\<close> runs in a
  goroutine of its own, where a bind failure is only printed.
\<close>

definition HTTPReceiver_Start ::
  "HTTPReceiver \<Rightarrow> chan \<Rightarrow> start_error option \<times> HTTPReceiver"
where
  "HTTPReceiver_Start hr out =
     (if hr_running hr then (Some AlreadyRunning, hr)
      else (None, hr\<lparr>hr_running := True, hr_out := Some out, hr_server := True\<rparr>))"

text \<open>The entry that \<^verbatim>\<open>handleLogs\<close> builds from the decoded body.\<close>

definition handleLogs_entry :: "int \<Rightarrow> logData \<Rightarrow> LogEntry" where
  "handleLogs_entry now logData =
     (let entry = NewLogEntry now;
          entry = entry\<lparr>Message := ld_Message logData\<rparr>;
          entry = entry\<lparr>Source := ld_Source logData\<rparr>;
          entry = (if Source entry = [] then entry\<lparr>Source := ''http''\<rparr> else entry);
          entry = entry\<lparr>Level :=
            (if ld_Level logData = ''DEBUG'' then LevelDebug
             else if ld_Level logData = ''INFO'' then LevelInfo
             else if ld_Level logData = ''WARNING'' \<or> ld_Level logData = ''WARN''
               then LevelWarning
             else if ld_Level logData = ''ERROR'' then LevelError
             else if ld_Level logData = ''CRITICAL'' \<or> ld_Level logData = ''CRIT''
               then LevelCritical
             else LevelInfo)\<rparr>
      in (case ld_Fields logData of None \<Rightarrow> entry | Some f \<Rightarrow> entry\<lparr>Fields := f\<rparr>))"

definition handleLogs :: "int \<Rightarrow> chan \<Rightarrow> logData request \<Rightarrow> chan \<times> response" where
  "handleLogs now out r =
     (if Method r \<noteq> ''POST''
      then (out, \<lparr>status = 405, payload = PlainText ''Method not allowed''\<rparr>)
      else (case Body r of
              ReadError \<Rightarrow> (out, \<lparr>status = 400, payload = PlainText ''Failed to read body''\<rparr>)
            | InvalidJSON \<Rightarrow> (out, \<lparr>status = 400, payload = PlainText ''Invalid JSON''\<rparr>)
            | Decoded logData \<Rightarrow>
                (let entry = handleLogs_entry now logData in
                 case try_send out entry of
                   Some out' \<Rightarrow> (out', \<lparr>status = 202, payload = AcceptedID (ID entry)\<rparr>)
                 | None \<Rightarrow> (out, \<lparr>status = 503, payload = PlainText ''Channel full''\<rparr>))))"

text \<open>The entry that the loop of \<^verbatim>\<open>handleBatch\<close> builds from one element of the array.\<close>

definition handleBatch_entry :: "int \<Rightarrow> logData \<Rightarrow> LogEntry" where
  "handleBatch_entry now logData =
     (let entry = NewLogEntry now;
          entry = entry\<lparr>Message := ld_Message logData\<rparr>;
          entry = entry\<lparr>Source := ld_Source logData\<rparr>;
          entry = (if Source entry = [] then entry\<lparr>Source := ''http''\<rparr> else entry);
          entry = entry\<lparr>Level :=
            (if ld_Level logData = ''DEBUG'' then LevelDebug
             else if ld_Level logData = ''INFO'' then LevelInfo
             else if ld_Level logData = ''WARNING'' \<or> ld_Level logData = ''WARN''
               then LevelWarning
             else if ld_Level logData = ''ERROR'' then LevelError
             else if ld_Level logData = ''CRITICAL'' \<or> ld_Level logData = ''CRIT''
               then LevelCritical
             else LevelInfo)\<rparr>
      in (case ld_Fields logData of None \<Rightarrow> entry | Some f \<Rightarrow> entry\<lparr>Fields := f\<rparr>))"

text \<open>
  The \<^verbatim>\<open>range\<close> loop of \<^verbatim>\<open>handleBatch\<close>, with the channel and the counter \<^verbatim>\<open>accepted\<close> as
  its state; \<open>i\<close> counts the elements already visited, for the clock.
\<close>

fun batchLoop ::
  "(nat \<Rightarrow> int) \<Rightarrow> nat \<Rightarrow> chan \<Rightarrow> nat \<Rightarrow> logData list \<Rightarrow> chan \<times> nat"
where
  "batchLoop clock i out accepted [] = (out, accepted)"
| "batchLoop clock i out accepted (logData # logs) =
     (let entry = handleBatch_entry (clock i) logData in
      case try_send out entry of
        Some out' \<Rightarrow> batchLoop clock (Suc i) out' (accepted + 1) logs
      | None \<Rightarrow> batchLoop clock (Suc i) out accepted logs)"

definition handleBatch ::
  "(nat \<Rightarrow> int) \<Rightarrow> chan \<Rightarrow> (logData list) request \<Rightarrow> chan \<times> response"
where
  "handleBatch clock out r =
     (if Method r \<noteq> ''POST''
      then (out, \<lparr>status = 405, payload = PlainText ''Method not allowed''\<rparr>)
      else (case Body r of
              ReadError \<Rightarrow> (out, \<lparr>status = 400, payload = PlainText ''Failed to read body''\<rparr>)
            | InvalidJSON \<Rightarrow> (out, \<lparr>status = 400, payload = PlainText ''Invalid JSON''\<rparr>)
            | Decoded logs \<Rightarrow>
                (case batchLoop clock 0 out 0 logs of
                   (out', accepted) \<Rightarrow>
                     (out', \<lparr>status = 202, payload = AcceptedBatch (length logs) accepted\<rparr>))))"

lemma ReadString_consumes:
  "ReadString u e = (line, err, rest) \<Longrightarrow> u = line @ rest"
  by (induction u arbitrary: line err rest) (auto split: if_splits prod.splits)

lemma ReadString_line_nonempty:
  "ReadString u e = (line, None, rest) \<Longrightarrow> line \<noteq> []"
  by (cases u) (auto split: if_splits prod.splits)

lemma ReadString_progress:
  assumes "ReadString (drop n content) e = (line, None, rest)"
  shows "length content - (n + length line) < length content - n"
proof -
  from ReadString_consumes[OF assms] have "length (drop n content) = length line + length rest"
    by (metis length_append)
  then have "length content - n = length line + length rest" by simp
  moreover from ReadString_line_nonempty[OF assms] have "0 < length line" by simp
  ultimately show ?thesis by arith
qed

termination readLines
proof (relation "measure (\<lambda>(clock, content, e, s). length content - consumed s)", goal_cases)
  case 1
  show ?case by simp
next
  case (2 clock content e s line y err rest r entry)
  then have "ReadString (drop (consumed s) content) e = (line, None, rest)" by simp
  from ReadString_progress[OF this] show ?case by simp
qed

section \<open>Facts about the string functions\<close>

lemma Index_single:
  "Index s [c] = (if c \<in> set s then int (length (takeWhile (\<lambda>x. x \<noteq> c) s)) else - 1)"
  by (induction s) (auto simp: HasPrefix_def Let_def)

text \<open>\<^verbatim>\<open>Contains\<close> holds exactly of the contiguous substrings.\<close>

lemma Contains_iff: "Contains s sub = (\<exists>ps ss. s = ps @ sub @ ss)"
  unfolding Contains_def
proof (induction s)
  case Nil
  then show ?case by auto
next
  case (Cons c t)
  show ?case
  proof (cases "HasPrefix (c # t) sub")
    case True
    then have "c # t = [] @ sub @ drop (length sub) (c # t)"
      unfolding HasPrefix_def by (metis append_Nil append_take_drop_id)
    then have "\<exists>ps ss. c # t = ps @ sub @ ss" by blast
    with True show ?thesis by simp
  next
    case False
    have "(\<exists>ps ss. c # t = ps @ sub @ ss) = (\<exists>ps ss. t = ps @ sub @ ss)"
    proof
      assume "\<exists>ps ss. c # t = ps @ sub @ ss"
      then obtain ps ss where e: "c # t = ps @ sub @ ss" by blast
      show "\<exists>ps ss. t = ps @ sub @ ss"
      proof (cases ps)
        case Nil
        with e have "HasPrefix (c # t) sub" by (simp add: HasPrefix_def)
        with False show ?thesis by simp
      next
        case (Cons a ps')
        with e have "t = ps' @ sub @ ss" by simp
        then show ?thesis by blast
      qed
    next
      assume "\<exists>ps ss. t = ps @ sub @ ss"
      then obtain ps ss where "t = ps @ sub @ ss" by blast
      then have "c # t = (c # ps) @ sub @ ss" by simp
      then show "\<exists>ps ss. c # t = ps @ sub @ ss" by blast
    qed
    with False Cons show ?thesis by (auto simp: Let_def)
  qed
qed

lemma Contains_lowerByte:
  assumes "Contains s k" and "map lowerByte k = k"
  shows "Contains (map lowerByte s) k"
proof -
  from assms(1) obtain ps ss where "s = ps @ k @ ss" unfolding Contains_iff by blast
  then have "map lowerByte s = map lowerByte ps @ k @ map lowerByte ss"
    using assms(2) by simp
  then show ?thesis unfolding Contains_iff by blast
qed

lemma Contains_shorter: "Contains s (k @ k') \<Longrightarrow> Contains s k"
  unfolding Contains_iff by (metis append.assoc)

lemma takeWhile_neq: "c \<notin> set p \<Longrightarrow> takeWhile (\<lambda>x. x \<noteq> c) (p @ c # rest) = p"
  by (induction p) auto

section \<open>The syslog parser\<close>


lemma parse_raw_field:
  "Fields (parseSyslogMessage mapLower sr now raw) ''raw'' =
     Some (VStr (if HasPrefix raw ''<'' \<and> 0 < Index raw ''>'' \<and> Index raw ''>'' < 10
                 then drop (nat (Index raw ''>'' + 1)) raw else raw))"
  by (simp add: parseSyslogMessage_def Let_def split_def)

lemma parse_priority_field:
  "Fields (parseSyslogMessage mapLower sr now raw) ''priority'' =
     (if HasPrefix raw ''<'' \<and> 0 < Index raw ''>'' \<and> Index raw ''>'' < 10
      then Some (VStr (slice raw 1 (nat (Index raw ''>'')))) else None)"
  by (simp add: parseSyslogMessage_def Let_def NewLogEntry_def split_def)

lemma parse_Level:
  assumes "Fields (parseSyslogMessage mapLower sr now raw) ''raw'' = Some (VStr rem)"
  shows "Level (parseSyslogMessage mapLower sr now raw) =
     (if Contains (ToLower mapLower rem) ''crit'' \<or> Contains (ToLower mapLower rem) ''emerg''
         \<or> Contains (ToLower mapLower rem) ''alert'' then LevelCritical
      else if Contains (ToLower mapLower rem) ''err'' \<or> Contains (ToLower mapLower rem) ''error'' then LevelError
      else if Contains (ToLower mapLower rem) ''warn'' then LevelWarning
      else if Contains (ToLower mapLower rem) ''debug'' then LevelDebug
      else LevelInfo)"
proof (cases "HasPrefix raw ''<''")
  case hp: True
  show ?thesis
  proof (cases "0 < Index raw ''>'' \<and> Index raw ''>'' < 10")
    case True
    with hp assms have "rem = drop (nat (Index raw ''>'' + 1)) raw"
      by (simp add: parse_raw_field)
    with hp True show ?thesis
      by (simp add: parseSyslogMessage_def Let_def)
  next
    case False
    with hp assms have "rem = raw"
      by (simp add: parse_raw_field)
    with hp False show ?thesis
      by (simp add: parseSyslogMessage_def Let_def cong: conj_cong)
  qed
next
  case False
  with assms have "rem = raw"
    by (simp add: parse_raw_field)
  with False show ?thesis
    by (simp add: parseSyslogMessage_def Let_def)
qed

lemma tagged_Index:
  assumes "CHR ''>'' \<notin> set p"
  shows "Index (CHR ''<'' # p @ CHR ''>'' # rest) ''>'' = int (length p) + 1"
  using assms by (simp add: Index_single takeWhile_neq)

text \<open>
  The test of the source (a leading \<open><\<close> and the first \<open>>\<close> at a byte index from 1 to 9)
  holds exactly of the messages \<open><p>rest\<close> whose tag \<open>p\<close> has no \<open>>\<close> and fewer than 9
  bytes.
\<close>

lemma tagged_iff:
  "(HasPrefix raw ''<'' \<and> 0 < Index raw ''>'' \<and> Index raw ''>'' < 10) =
   (\<exists>p rest. raw = CHR ''<'' # p @ CHR ''>'' # rest \<and> CHR ''>'' \<notin> set p \<and> length p < 9)"
proof
  assume a: "HasPrefix raw ''<'' \<and> 0 < Index raw ''>'' \<and> Index raw ''>'' < 10"
  then obtain t where raw: "raw = CHR ''<'' # t"
    by (cases raw) (auto simp: HasPrefix_def)
  from a have mem: "CHR ''>'' \<in> set raw"
    by (auto simp: Index_single split: if_splits)
  with raw have memt: "CHR ''>'' \<in> set t" by simp
  define p where "p = takeWhile (\<lambda>x. x \<noteq> CHR ''>'') t"
  define rest where "rest = tl (dropWhile (\<lambda>x. x \<noteq> CHR ''>'') t)"
  have "dropWhile (\<lambda>x. x \<noteq> CHR ''>'') t \<noteq> []" using memt by simp
  moreover have "hd (dropWhile (\<lambda>x. x \<noteq> CHR ''>'') t) = CHR ''>''"
    using memt hd_dropWhile[of "\<lambda>x. x \<noteq> CHR ''>''" t] by auto
  ultimately have "dropWhile (\<lambda>x. x \<noteq> CHR ''>'') t = CHR ''>'' # rest"
    unfolding rest_def by (metis list.collapse)
  then have t: "t = p @ CHR ''>'' # rest"
    unfolding p_def by (metis takeWhile_dropWhile_id)
  have np: "CHR ''>'' \<notin> set p" unfolding p_def by (auto dest: set_takeWhileD)
  have "Index raw ''>'' = int (length p) + 1"
    using tagged_Index[OF np, of rest] raw t by simp
  with a have "length p < 9" by simp
  with raw t np show "\<exists>p rest. raw = CHR ''<'' # p @ CHR ''>'' # rest \<and> CHR ''>'' \<notin> set p \<and> length p < 9"
    by blast
next
  assume "\<exists>p rest. raw = CHR ''<'' # p @ CHR ''>'' # rest \<and> CHR ''>'' \<notin> set p \<and> length p < 9"
  then obtain p rest where raw: "raw = CHR ''<'' # p @ CHR ''>'' # rest"
    and np: "CHR ''>'' \<notin> set p" and len: "length p < 9" by blast
  have "Index raw ''>'' = int (length p) + 1" using tagged_Index[OF np, of rest] raw by simp
  with len raw show "HasPrefix raw ''<'' \<and> 0 < Index raw ''>'' \<and> Index raw ''>'' < 10"
    by (simp add: HasPrefix_def)
qed

text \<open>
  Claim C7. A message that begins with \<open><\<close> and whose first \<open>>\<close> lies within its first
  10 bytes (the tag between them then has fewer than 9 bytes) gets the tag as
  \<open>fields["priority"]\<close> and the bytes after the \<open>>\<close>, unchanged, as \<open>fields["raw"]\<close>; every
  other message gets no priority field and itself as \<open>fields["raw"]\<close>. The input
  \<open><34>Test message\<close> yields priority \<open>34\<close> and raw \<open>Test message\<close>. Positions count bytes,
  as Go's string indexing does.
\<close>

theorem syslog_priority_extraction:
  "(raw = CHR ''<'' # p @ CHR ''>'' # rest \<and> CHR ''>'' \<notin> set p \<and> length p < 9 \<longrightarrow>
      Fields (parseSyslogMessage mapLower sr now raw) ''priority'' = Some (VStr p) \<and>
      Fields (parseSyslogMessage mapLower sr now raw) ''raw'' = Some (VStr rest)) \<and>
   (\<not> (\<exists>p rest. raw = CHR ''<'' # p @ CHR ''>'' # rest \<and> CHR ''>'' \<notin> set p \<and> length p < 9) \<longrightarrow>
      Fields (parseSyslogMessage mapLower sr now raw) ''priority'' = None \<and>
      Fields (parseSyslogMessage mapLower sr now raw) ''raw'' = Some (VStr raw)) \<and>
   Fields (parseSyslogMessage mapLower sr now ''<34>Test message'') ''priority'' = Some (VStr ''34'') \<and>
   Fields (parseSyslogMessage mapLower sr now ''<34>Test message'') ''raw'' = Some (VStr ''Test message'')"
proof (intro conjI impI)
  assume a: "raw = CHR ''<'' # p @ CHR ''>'' # rest \<and> CHR ''>'' \<notin> set p \<and> length p < 9"
  then have t: "HasPrefix raw ''<'' \<and> 0 < Index raw ''>'' \<and> Index raw ''>'' < 10"
    unfolding tagged_iff by blast
  from a have i: "Index raw ''>'' = int (length p) + 1" using tagged_Index by simp
  show "Fields (parseSyslogMessage mapLower sr now raw) ''priority'' = Some (VStr p)"
    using t i a by (simp add: parse_priority_field slice_def)
  show "Fields (parseSyslogMessage mapLower sr now raw) ''raw'' = Some (VStr rest)"
    using t i a by (simp add: parse_raw_field nat_add_distrib)
next
  assume "\<not> (\<exists>p rest. raw = CHR ''<'' # p @ CHR ''>'' # rest \<and> CHR ''>'' \<notin> set p \<and> length p < 9)"
  then have n: "\<not> (HasPrefix raw ''<'' \<and> 0 < Index raw ''>'' \<and> Index raw ''>'' < 10)"
    unfolding tagged_iff .
  show "Fields (parseSyslogMessage mapLower sr now raw) ''priority'' = None"
    using n by (simp only: parse_priority_field if_False)
  show "Fields (parseSyslogMessage mapLower sr now raw) ''raw'' = Some (VStr raw)"
    using n by (simp only: parse_raw_field if_False)
next
  show "Fields (parseSyslogMessage mapLower sr now ''<34>Test message'') ''priority'' = Some (VStr ''34'')"
    by code_simp
  show "Fields (parseSyslogMessage mapLower sr now ''<34>Test message'') ''raw'' = Some (VStr ''Test message'')"
    by code_simp
qed

theorem syslog_priority_extraction_witness:
  "Fields (parseSyslogMessage noTables (NewSyslogReceiver noTables ''127.0.0.1:514'' ''udp'') 0 ''<165>boot'')
       ''priority'' = Some (VStr ''165'') \<and>
   Fields (parseSyslogMessage noTables (NewSyslogReceiver noTables ''127.0.0.1:514'' ''udp'') 0 ''<165>boot'')
       ''raw'' = Some (VStr ''boot'') \<and>
   Fields (parseSyslogMessage noTables (NewSyslogReceiver noTables ''127.0.0.1:514'' ''udp'') 0 ''<1234567890>x'')
       ''priority'' = None \<and>
   Fields (parseSyslogMessage noTables (NewSyslogReceiver noTables ''127.0.0.1:514'' ''udp'') 0 ''<1234567890>x'')
       ''raw'' = Some (VStr ''<1234567890>x'')"
proof -
  let ?sr = "NewSyslogReceiver noTables ''127.0.0.1:514'' ''udp''"
  have a: "''<165>boot'' = CHR ''<'' # ''165'' @ CHR ''>'' # ''boot'' \<and>
           CHR ''>'' \<notin> set ''165'' \<and> length ''165'' < 9"
    by simp
  have b: "\<not> (\<exists>p rest. ''<1234567890>x'' = CHR ''<'' # p @ CHR ''>'' # rest \<and>
              CHR ''>'' \<notin> set p \<and> length p < 9)"
  proof
    assume "\<exists>p rest. ''<1234567890>x'' = CHR ''<'' # p @ CHR ''>'' # rest \<and>
              CHR ''>'' \<notin> set p \<and> length p < 9"
    then have "HasPrefix ''<1234567890>x'' ''<'' \<and> 0 < Index ''<1234567890>x'' ''>'' \<and>
               Index ''<1234567890>x'' ''>'' < 10"
      unfolding tagged_iff .
    then show False by code_simp
  qed
  from syslog_priority_extraction[of "''<165>boot''" "''165''" "''boot''" noTables ?sr 0] a
       syslog_priority_extraction[of "''<1234567890>x''" "[]" "[]" noTables ?sr 0] b
  show ?thesis by blast
qed

text \<open>
  The level as a function of the input: of the bytes after the tag for a message
  \<open><p>rest\<close>, and of the whole message otherwise.
\<close>

lemma ToLower_ASCII: "isASCII s \<Longrightarrow> ToLower mapLower s = map lowerByte s"
  by (simp add: ToLower_def)

lemma parse_Level_tagged:
  assumes "raw = CHR ''<'' # p @ CHR ''>'' # rest" and "CHR ''>'' \<notin> set p" and "length p < 9"
  shows "Level (parseSyslogMessage mapLower sr now raw) =
     (if Contains (ToLower mapLower rest) ''crit'' \<or> Contains (ToLower mapLower rest) ''emerg''
         \<or> Contains (ToLower mapLower rest) ''alert'' then LevelCritical
      else if Contains (ToLower mapLower rest) ''err'' \<or> Contains (ToLower mapLower rest) ''error''
        then LevelError
      else if Contains (ToLower mapLower rest) ''warn'' then LevelWarning
      else if Contains (ToLower mapLower rest) ''debug'' then LevelDebug
      else LevelInfo)"
proof -
  from assms have t: "HasPrefix raw ''<'' \<and> 0 < Index raw ''>'' \<and> Index raw ''>'' < 10"
    unfolding tagged_iff by blast
  from assms have i: "Index raw ''>'' = int (length p) + 1" using tagged_Index by simp
  have "Fields (parseSyslogMessage mapLower sr now raw) ''raw'' = Some (VStr rest)"
    using t i assms(1) by (simp add: parse_raw_field nat_add_distrib)
  from parse_Level[OF this] show ?thesis .
qed

lemma parse_Level_untagged:
  assumes "\<not> (\<exists>p rest. raw = CHR ''<'' # p @ CHR ''>'' # rest \<and> CHR ''>'' \<notin> set p \<and> length p < 9)"
  shows "Level (parseSyslogMessage mapLower sr now raw) =
     (if Contains (ToLower mapLower raw) ''crit'' \<or> Contains (ToLower mapLower raw) ''emerg''
         \<or> Contains (ToLower mapLower raw) ''alert'' then LevelCritical
      else if Contains (ToLower mapLower raw) ''err'' \<or> Contains (ToLower mapLower raw) ''error''
        then LevelError
      else if Contains (ToLower mapLower raw) ''warn'' then LevelWarning
      else if Contains (ToLower mapLower raw) ''debug'' then LevelDebug
      else LevelInfo)"
proof -
  from assms have n: "\<not> (HasPrefix raw ''<'' \<and> 0 < Index raw ''>'' \<and> Index raw ''>'' < 10)"
    unfolding tagged_iff .
  have "Fields (parseSyslogMessage mapLower sr now raw) ''raw'' = Some (VStr raw)"
    using n by (simp only: parse_raw_field if_False)
  from parse_Level[OF this] show ?thesis .
qed

lemma critical_wins:
  assumes "Contains low ''critical''"
  shows "Contains low ''crit''"
proof -
  from assms have "Contains low (''crit'' @ ''ical'')" by simp
  then show ?thesis by (rule Contains_shorter)
qed

lemma severity_of_remainder:
  "((raw = CHR ''<'' # p @ CHR ''>'' # rem \<and> CHR ''>'' \<notin> set p \<and> length p < 9) \<or>
    (\<not> (\<exists>p rest. raw = CHR ''<'' # p @ CHR ''>'' # rest \<and> CHR ''>'' \<notin> set p \<and> length p < 9) \<and>
     rem = raw)) \<and>
   low = ToLower mapLower rem \<longrightarrow>
     Level (parseSyslogMessage mapLower sr now raw) =
       (if Contains low ''crit'' \<or> Contains low ''emerg'' \<or> Contains low ''alert''
        then LevelCritical
        else if Contains low ''err'' \<or> Contains low ''error'' then LevelError
        else if Contains low ''warn'' then LevelWarning
        else if Contains low ''debug'' then LevelDebug
        else LevelInfo) \<and>
     (Contains low ''critical'' \<and> Contains low ''error'' \<longrightarrow>
        Level (parseSyslogMessage mapLower sr now raw) = LevelCritical) \<and>
     (isASCII rem \<and> Contains rem ''critical'' \<and> Contains rem ''error'' \<longrightarrow>
        Level (parseSyslogMessage mapLower sr now raw) = LevelCritical) \<and>
     (\<not> Contains low ''crit'' \<and> \<not> Contains low ''emerg'' \<and> \<not> Contains low ''alert'' \<and>
      \<not> Contains low ''err'' \<and> \<not> Contains low ''error'' \<and> \<not> Contains low ''warn'' \<and>
      \<not> Contains low ''debug'' \<longrightarrow>
        Level (parseSyslogMessage mapLower sr now raw) = LevelInfo)"
proof (intro impI)
  assume a: "((raw = CHR ''<'' # p @ CHR ''>'' # rem \<and> CHR ''>'' \<notin> set p \<and> length p < 9) \<or>
    (\<not> (\<exists>p rest. raw = CHR ''<'' # p @ CHR ''>'' # rest \<and> CHR ''>'' \<notin> set p \<and> length p < 9) \<and>
     rem = raw)) \<and> low = ToLower mapLower rem"
  then have low: "low = ToLower mapLower rem" by blast
  have chain: "Level (parseSyslogMessage mapLower sr now raw) =
       (if Contains low ''crit'' \<or> Contains low ''emerg'' \<or> Contains low ''alert''
        then LevelCritical
        else if Contains low ''err'' \<or> Contains low ''error'' then LevelError
        else if Contains low ''warn'' then LevelWarning
        else if Contains low ''debug'' then LevelDebug
        else LevelInfo)"
  proof -
    from a consider
      (tagged) "raw = CHR ''<'' # p @ CHR ''>'' # rem" "CHR ''>'' \<notin> set p" "length p < 9"
      | (plain) "\<not> (\<exists>p rest. raw = CHR ''<'' # p @ CHR ''>'' # rest \<and> CHR ''>'' \<notin> set p \<and> length p < 9)"
          "rem = raw"
      by blast
    then show ?thesis
    proof cases
      case tagged
      from parse_Level_tagged[OF tagged, of mapLower sr now] low show ?thesis by simp
    next
      case plain
      from parse_Level_untagged[OF plain(1), of mapLower sr now] plain(2) low show ?thesis by simp
    qed
  qed
  have both: "Contains low ''critical'' \<and> Contains low ''error'' \<longrightarrow>
        Level (parseSyslogMessage mapLower sr now raw) = LevelCritical"
    using chain critical_wins[of low] by simp
  have ascii: "isASCII rem \<and> Contains rem ''critical'' \<and> Contains rem ''error'' \<longrightarrow>
        Level (parseSyslogMessage mapLower sr now raw) = LevelCritical"
  proof
    assume b: "isASCII rem \<and> Contains rem ''critical'' \<and> Contains rem ''error''"
    have "map lowerByte ''critical'' = ''critical''" by code_simp
    with b have "Contains (map lowerByte rem) ''critical''" by (simp add: Contains_lowerByte)
    with b low have "Contains low ''critical''" by (simp add: ToLower_ASCII)
    from critical_wins[OF this] chain
    show "Level (parseSyslogMessage mapLower sr now raw) = LevelCritical" by simp
  qed
  have none: "\<not> Contains low ''crit'' \<and> \<not> Contains low ''emerg'' \<and> \<not> Contains low ''alert'' \<and>
      \<not> Contains low ''err'' \<and> \<not> Contains low ''error'' \<and> \<not> Contains low ''warn'' \<and>
      \<not> Contains low ''debug'' \<longrightarrow>
        Level (parseSyslogMessage mapLower sr now raw) = LevelInfo"
    using chain by simp
  from chain both ascii none
  show "Level (parseSyslogMessage mapLower sr now raw) =
       (if Contains low ''crit'' \<or> Contains low ''emerg'' \<or> Contains low ''alert''
        then LevelCritical
        else if Contains low ''err'' \<or> Contains low ''error'' then LevelError
        else if Contains low ''warn'' then LevelWarning
        else if Contains low ''debug'' then LevelDebug
        else LevelInfo) \<and>
     (Contains low ''critical'' \<and> Contains low ''error'' \<longrightarrow>
        Level (parseSyslogMessage mapLower sr now raw) = LevelCritical) \<and>
     (isASCII rem \<and> Contains rem ''critical'' \<and> Contains rem ''error'' \<longrightarrow>
        Level (parseSyslogMessage mapLower sr now raw) = LevelCritical) \<and>
     (\<not> Contains low ''crit'' \<and> \<not> Contains low ''emerg'' \<and> \<not> Contains low ''alert'' \<and>
      \<not> Contains low ''err'' \<and> \<not> Contains low ''error'' \<and> \<not> Contains low ''warn'' \<and>
      \<not> Contains low ''debug'' \<longrightarrow>
        Level (parseSyslogMessage mapLower sr now raw) = LevelInfo)"
    by blast
qed

text \<open>
  Claim C6. The remainder of a message is what is left after priority stripping: the
  bytes after the \<open>>\<close> when the message is \<open><p>...\<close> with a tag \<open>p\<close> of fewer than 9 bytes
  and no \<open>>\<close> in it, and the whole message otherwise. For every message, and whatever the
  library's lower-casing does to bytes outside ASCII, the level is decided by the
  lower-cased remainder in a fixed order: \<open>crit\<close>, \<open>emerg\<close> or \<open>alert\<close> give CRITICAL; else
  \<open>err\<close> or \<open>error\<close> give ERROR; else \<open>warn\<close> gives WARNING; else \<open>debug\<close> gives DEBUG;
  else INFO. A remainder whose lower-cased form contains both \<open>critical\<close> and \<open>error\<close> is
  CRITICAL, and so is an ASCII remainder that contains them as written; a remainder whose
  lower-cased form has none of the keywords is INFO. The five messages of the repository's
  level-detection test, and an upper-case message, get the levels the test expects.
\<close>

theorem syslog_severity_precedence:
  "(((raw = CHR ''<'' # p @ CHR ''>'' # rem \<and> CHR ''>'' \<notin> set p \<and> length p < 9) \<or>
    (\<not> (\<exists>p rest. raw = CHR ''<'' # p @ CHR ''>'' # rest \<and> CHR ''>'' \<notin> set p \<and> length p < 9) \<and>
     rem = raw)) \<and>
   low = ToLower mapLower rem \<longrightarrow>
     Level (parseSyslogMessage mapLower sr now raw) =
       (if Contains low ''crit'' \<or> Contains low ''emerg'' \<or> Contains low ''alert''
        then LevelCritical
        else if Contains low ''err'' \<or> Contains low ''error'' then LevelError
        else if Contains low ''warn'' then LevelWarning
        else if Contains low ''debug'' then LevelDebug
        else LevelInfo) \<and>
     (Contains low ''critical'' \<and> Contains low ''error'' \<longrightarrow>
        Level (parseSyslogMessage mapLower sr now raw) = LevelCritical) \<and>
     (isASCII rem \<and> Contains rem ''critical'' \<and> Contains rem ''error'' \<longrightarrow>
        Level (parseSyslogMessage mapLower sr now raw) = LevelCritical) \<and>
     (\<not> Contains low ''crit'' \<and> \<not> Contains low ''emerg'' \<and> \<not> Contains low ''alert'' \<and>
      \<not> Contains low ''err'' \<and> \<not> Contains low ''error'' \<and> \<not> Contains low ''warn'' \<and>
      \<not> Contains low ''debug'' \<longrightarrow>
        Level (parseSyslogMessage mapLower sr now raw) = LevelInfo)) \<and>
   Level (parseSyslogMessage mapLower sr now ''<34>Error occurred in system'') = LevelError \<and>
   Level (parseSyslogMessage mapLower sr now ''<34>Warning: disk space low'') = LevelWarning \<and>
   Level (parseSyslogMessage mapLower sr now ''<34>Critical system failure'') = LevelCritical \<and>
   Level (parseSyslogMessage mapLower sr now ''<34>Debug information'') = LevelDebug \<and>
   Level (parseSyslogMessage mapLower sr now ''<34>Normal operation'') = LevelInfo \<and>
   Level (parseSyslogMessage mapLower sr now ''CRITICAL ERROR'') = LevelCritical"
proof (intro conjI)
  show "((raw = CHR ''<'' # p @ CHR ''>'' # rem \<and> CHR ''>'' \<notin> set p \<and> length p < 9) \<or>
    (\<not> (\<exists>p rest. raw = CHR ''<'' # p @ CHR ''>'' # rest \<and> CHR ''>'' \<notin> set p \<and> length p < 9) \<and>
     rem = raw)) \<and>
   low = ToLower mapLower rem \<longrightarrow>
     Level (parseSyslogMessage mapLower sr now raw) =
       (if Contains low ''crit'' \<or> Contains low ''emerg'' \<or> Contains low ''alert''
        then LevelCritical
        else if Contains low ''err'' \<or> Contains low ''error'' then LevelError
        else if Contains low ''warn'' then LevelWarning
        else if Contains low ''debug'' then LevelDebug
        else LevelInfo) \<and>
     (Contains low ''critical'' \<and> Contains low ''error'' \<longrightarrow>
        Level (parseSyslogMessage mapLower sr now raw) = LevelCritical) \<and>
     (isASCII rem \<and> Contains rem ''critical'' \<and> Contains rem ''error'' \<longrightarrow>
        Level (parseSyslogMessage mapLower sr now raw) = LevelCritical) \<and>
     (\<not> Contains low ''crit'' \<and> \<not> Contains low ''emerg'' \<and> \<not> Contains low ''alert'' \<and>
      \<not> Contains low ''err'' \<and> \<not> Contains low ''error'' \<and> \<not> Contains low ''warn'' \<and>
      \<not> Contains low ''debug'' \<longrightarrow>
        Level (parseSyslogMessage mapLower sr now raw) = LevelInfo)"
    by (rule severity_of_remainder)
  show "Level (parseSyslogMessage mapLower sr now ''<34>Error occurred in system'') = LevelError"
    by code_simp
  show "Level (parseSyslogMessage mapLower sr now ''<34>Warning: disk space low'') = LevelWarning"
    by code_simp
  show "Level (parseSyslogMessage mapLower sr now ''<34>Critical system failure'') = LevelCritical"
    by code_simp
  show "Level (parseSyslogMessage mapLower sr now ''<34>Debug information'') = LevelDebug"
    by code_simp
  show "Level (parseSyslogMessage mapLower sr now ''<34>Normal operation'') = LevelInfo"
    by code_simp
  show "Level (parseSyslogMessage mapLower sr now ''CRITICAL ERROR'') = LevelCritical"
    by code_simp
qed

theorem syslog_severity_precedence_witness:
  "Level (parseSyslogMessage noTables (NewSyslogReceiver noTables ''127.0.0.1:514'' ''udp'') 0
      ''<13>disk critical error'') = LevelCritical \<and>
   Level (parseSyslogMessage noTables (NewSyslogReceiver noTables ''127.0.0.1:514'' ''udp'') 0
      ''<13>DISK CRITICAL ERROR'') = LevelCritical \<and>
   Level (parseSyslogMessage noTables (NewSyslogReceiver noTables ''127.0.0.1:514'' ''udp'') 0
      ''Normal operation'') = LevelInfo \<and>
   Level (parseSyslogMessage noTables (NewSyslogReceiver noTables ''127.0.0.1:514'' ''udp'') 0
      ''<err>hello'') = LevelInfo \<and>
   Level (parseSyslogMessage noTables (NewSyslogReceiver noTables ''127.0.0.1:514'' ''udp'') 0
      ''<34>Warning: disk space low'') = LevelWarning"
proof -
  let ?sr = "NewSyslogReceiver noTables ''127.0.0.1:514'' ''udp''"
  have s1: "''<13>disk critical error'' = CHR ''<'' # ''13'' @ CHR ''>'' # ''disk critical error'' \<and>
            CHR ''>'' \<notin> set ''13'' \<and> length ''13'' < 9"
    by simp
  have l1: "''disk critical error'' = ToLower noTables ''disk critical error''" by code_simp
  have c1: "isASCII ''disk critical error'' \<and> Contains ''disk critical error'' ''critical'' \<and>
            Contains ''disk critical error'' ''error''"
    by code_simp
  note t1 = syslog_severity_precedence[where raw = "''<13>disk critical error''" and p = "''13''"
        and rem = "''disk critical error''" and low = "''disk critical error''"
        and mapLower = noTables and sr = ?sr and now = 0, THEN conjunct1, THEN mp, OF conjI[OF disjI1[OF s1] l1]]
  have r1: "Level (parseSyslogMessage noTables ?sr 0 ''<13>disk critical error'') = LevelCritical"
    by (rule t1[THEN conjunct2, THEN conjunct2, THEN conjunct1, THEN mp, OF c1])
  have s5: "''<13>DISK CRITICAL ERROR'' = CHR ''<'' # ''13'' @ CHR ''>'' # ''DISK CRITICAL ERROR'' \<and>
            CHR ''>'' \<notin> set ''13'' \<and> length ''13'' < 9"
    by simp
  have l5: "''disk critical error'' = ToLower noTables ''DISK CRITICAL ERROR''" by code_simp
  have c5: "Contains ''disk critical error'' ''critical'' \<and>
            Contains ''disk critical error'' ''error''"
    by code_simp
  note t5 = syslog_severity_precedence[where raw = "''<13>DISK CRITICAL ERROR''" and p = "''13''"
        and rem = "''DISK CRITICAL ERROR''" and low = "''disk critical error''"
        and mapLower = noTables and sr = ?sr and now = 0, THEN conjunct1, THEN mp, OF conjI[OF disjI1[OF s5] l5]]
  have r5: "Level (parseSyslogMessage noTables ?sr 0 ''<13>DISK CRITICAL ERROR'') = LevelCritical"
    by (rule t5[THEN conjunct2, THEN conjunct1, THEN mp, OF c5])
  have s2: "\<not> (\<exists>p rest. ''Normal operation'' = CHR ''<'' # p @ CHR ''>'' # rest \<and>
              CHR ''>'' \<notin> set p \<and> length p < 9)"
    by simp
  have l2: "''normal operation'' = ToLower noTables ''Normal operation''" by code_simp
  have c2: "\<not> Contains ''normal operation'' ''crit'' \<and> \<not> Contains ''normal operation'' ''emerg'' \<and>
       \<not> Contains ''normal operation'' ''alert'' \<and> \<not> Contains ''normal operation'' ''err'' \<and>
       \<not> Contains ''normal operation'' ''error'' \<and> \<not> Contains ''normal operation'' ''warn'' \<and>
       \<not> Contains ''normal operation'' ''debug''"
    by code_simp
  note t2 = syslog_severity_precedence[where raw = "''Normal operation''" and p = "[]"
        and rem = "''Normal operation''" and low = "''normal operation''"
        and mapLower = noTables and sr = ?sr and now = 0, THEN conjunct1, THEN mp,
        OF conjI[OF disjI2[OF conjI[OF s2 refl]] l2]]
  have r2: "Level (parseSyslogMessage noTables ?sr 0 ''Normal operation'') = LevelInfo"
    by (rule t2[THEN conjunct2, THEN conjunct2, THEN conjunct2, THEN mp, OF c2])
  have s3: "''<err>hello'' = CHR ''<'' # ''err'' @ CHR ''>'' # ''hello'' \<and>
            CHR ''>'' \<notin> set ''err'' \<and> length ''err'' < 9"
    by simp
  have l3: "''hello'' = ToLower noTables ''hello''" by code_simp
  have c3: "\<not> Contains ''hello'' ''crit'' \<and> \<not> Contains ''hello'' ''emerg'' \<and>
       \<not> Contains ''hello'' ''alert'' \<and> \<not> Contains ''hello'' ''err'' \<and>
       \<not> Contains ''hello'' ''error'' \<and> \<not> Contains ''hello'' ''warn'' \<and>
       \<not> Contains ''hello'' ''debug''"
    by code_simp
  note t3 = syslog_severity_precedence[where raw = "''<err>hello''" and p = "''err''"
        and rem = "''hello''" and low = "''hello''"
        and mapLower = noTables and sr = ?sr and now = 0, THEN conjunct1, THEN mp, OF conjI[OF disjI1[OF s3] l3]]
  have r3: "Level (parseSyslogMessage noTables ?sr 0 ''<err>hello'') = LevelInfo"
    by (rule t3[THEN conjunct2, THEN conjunct2, THEN conjunct2, THEN mp, OF c3])
  have s4: "''<34>Warning: disk space low'' =
              CHR ''<'' # ''34'' @ CHR ''>'' # ''Warning: disk space low'' \<and>
            CHR ''>'' \<notin> set ''34'' \<and> length ''34'' < 9"
    by simp
  have l4: "''warning: disk space low'' = ToLower noTables ''Warning: disk space low''"
    by code_simp
  have c4: "(if Contains ''warning: disk space low'' ''crit'' \<or>
                Contains ''warning: disk space low'' ''emerg'' \<or>
                Contains ''warning: disk space low'' ''alert'' then LevelCritical
             else if Contains ''warning: disk space low'' ''err'' \<or>
                     Contains ''warning: disk space low'' ''error'' then LevelError
             else if Contains ''warning: disk space low'' ''warn'' then LevelWarning
             else if Contains ''warning: disk space low'' ''debug'' then LevelDebug
             else LevelInfo) = LevelWarning"
    by code_simp
  note t4 = syslog_severity_precedence[where raw = "''<34>Warning: disk space low''" and p = "''34''"
        and rem = "''Warning: disk space low''" and low = "''warning: disk space low''"
        and mapLower = noTables and sr = ?sr and now = 0, THEN conjunct1, THEN mp, OF conjI[OF disjI1[OF s4] l4]]
  have r4: "Level (parseSyslogMessage noTables ?sr 0 ''<34>Warning: disk space low'') = LevelWarning"
    using t4[THEN conjunct1] by (simp only: c4)
  show ?thesis
    by (intro conjI) (rule r1, rule r5, rule r2, rule r3, rule r4)
qed

section \<open>The syslog transports\<close>
















section \<open>The HTTP handlers\<close>

lemma handleLogs_entry_Level:
  "Level (handleLogs_entry now d) =
     (if ld_Level d = ''DEBUG'' then LevelDebug
      else if ld_Level d = ''INFO'' then LevelInfo
      else if ld_Level d = ''WARNING'' \<or> ld_Level d = ''WARN'' then LevelWarning
      else if ld_Level d = ''ERROR'' then LevelError
      else if ld_Level d = ''CRITICAL'' \<or> ld_Level d = ''CRIT'' then LevelCritical
      else LevelInfo)"
  by (cases "ld_Fields d") (simp_all add: handleLogs_entry_def Let_def)

lemma handleBatch_entry_Level:
  "Level (handleBatch_entry now d) =
     (if ld_Level d = ''DEBUG'' then LevelDebug
      else if ld_Level d = ''INFO'' then LevelInfo
      else if ld_Level d = ''WARNING'' \<or> ld_Level d = ''WARN'' then LevelWarning
      else if ld_Level d = ''ERROR'' then LevelError
      else if ld_Level d = ''CRITICAL'' \<or> ld_Level d = ''CRIT'' then LevelCritical
      else LevelInfo)"
  by (cases "ld_Fields d") (simp_all add: handleBatch_entry_def Let_def)

text \<open>
  Claim C5. On both endpoints the submitted level string is mapped the same way: \<open>DEBUG\<close>
  to DEBUG, \<open>INFO\<close> to INFO, \<open>WARNING\<close> and \<open>WARN\<close> to WARNING, \<open>ERROR\<close> to ERROR,
  \<open>CRITICAL\<close> and \<open>CRIT\<close> to CRITICAL, and every other string, the empty string of an
  absent member and differently-cased spellings included, to INFO.
\<close>

theorem http_level_mapping:
  "(ld_Level d = ''DEBUG'' \<longrightarrow>
      Level (handleLogs_entry now d) = LevelDebug \<and> Level (handleBatch_entry now d) = LevelDebug) \<and>
   (ld_Level d = ''INFO'' \<longrightarrow>
      Level (handleLogs_entry now d) = LevelInfo \<and> Level (handleBatch_entry now d) = LevelInfo) \<and>
   (ld_Level d = ''WARNING'' \<or> ld_Level d = ''WARN'' \<longrightarrow>
      Level (handleLogs_entry now d) = LevelWarning \<and>
      Level (handleBatch_entry now d) = LevelWarning) \<and>
   (ld_Level d = ''ERROR'' \<longrightarrow>
      Level (handleLogs_entry now d) = LevelError \<and> Level (handleBatch_entry now d) = LevelError) \<and>
   (ld_Level d = ''CRITICAL'' \<or> ld_Level d = ''CRIT'' \<longrightarrow>
      Level (handleLogs_entry now d) = LevelCritical \<and>
      Level (handleBatch_entry now d) = LevelCritical) \<and>
   (ld_Level d \<notin> {''DEBUG'', ''INFO'', ''WARNING'', ''WARN'', ''ERROR'', ''CRITICAL'', ''CRIT''} \<longrightarrow>
      Level (handleLogs_entry now d) = LevelInfo \<and> Level (handleBatch_entry now d) = LevelInfo)"
  by (simp add: handleLogs_entry_Level handleBatch_entry_Level)

text \<open>
  Once the channel is full the loop of \<^verbatim>\<open>handleBatch\<close> admits nothing more; in general it
  admits the first \<open>min n room\<close> entries, where \<open>room\<close> is the free space at the start.
\<close>

lemma batchLoop_full:
  "\<not> length (buf out) < cap out \<Longrightarrow> batchLoop clock i out acc logs = (out, acc)"
  by (induction logs arbitrary: i) (simp_all add: try_send_def Let_def)

lemma batchLoop_result:
  "batchLoop clock i out acc logs =
     (out\<lparr>buf := buf out @
         take (min (length logs) (cap out - length (buf out)))
           (map2 (\<lambda>j d. handleBatch_entry (clock j) d) [i..<i + length logs] logs)\<rparr>,
      acc + min (length logs) (cap out - length (buf out)))"
proof (induction logs arbitrary: i out acc)
  case Nil
  show ?case by simp
next
  case (Cons d logs)
  show ?case
  proof (cases "length (buf out) < cap out")
    case False
    then show ?thesis using batchLoop_full[of out clock i acc "d # logs"] by simp
  next
    case True
    let ?e = "handleBatch_entry (clock i) d"
    let ?out1 = "out\<lparr>buf := buf out @ [?e]\<rparr>"
    have "i < i + length (d # logs)" by simp
    from upt_conv_Cons[OF this]
    have up: "[i..<i + length (d # logs)] = i # [Suc i..<Suc i + length logs]"
      by (simp del: upt_Suc)
    have m: "min (length (d # logs)) (cap out - length (buf out))
               = Suc (min (length logs) (cap ?out1 - length (buf ?out1)))"
      using True by auto
    have "batchLoop clock i out acc (d # logs) = batchLoop clock (Suc i) ?out1 (acc + 1) logs"
      using True by (simp add: try_send_def Let_def)
    also have "\<dots> = (?out1\<lparr>buf := buf ?out1 @
         take (min (length logs) (cap ?out1 - length (buf ?out1)))
           (map2 (\<lambda>j d. handleBatch_entry (clock j) d) [Suc i..<Suc i + length logs] logs)\<rparr>,
      (acc + 1) + min (length logs) (cap ?out1 - length (buf ?out1)))"
      by (rule Cons.IH)
    finally show ?thesis
      unfolding m up by simp
  qed
qed

theorem http_level_mapping_witness:
  "Level (handleLogs_entry 0 \<lparr>ld_Level = ''WARN'', ld_Message = ''m'', ld_Source = [],
       ld_Fields = None\<rparr>) = LevelWarning \<and>
   Level (handleBatch_entry 0 \<lparr>ld_Level = ''CRIT'', ld_Message = ''m'', ld_Source = [],
       ld_Fields = None\<rparr>) = LevelCritical \<and>
   Level (handleLogs_entry 0 \<lparr>ld_Level = ''DEBUG'', ld_Message = ''m'', ld_Source = [],
       ld_Fields = None\<rparr>) = LevelDebug \<and>
   Level (handleBatch_entry 0 \<lparr>ld_Level = ''INFO'', ld_Message = ''m'', ld_Source = [],
       ld_Fields = None\<rparr>) = LevelInfo \<and>
   Level (handleLogs_entry 0 \<lparr>ld_Level = ''ERROR'', ld_Message = ''m'', ld_Source = [],
       ld_Fields = None\<rparr>) = LevelError \<and>
   Level (handleLogs_entry 0 \<lparr>ld_Level = ''error'', ld_Message = ''m'', ld_Source = [],
       ld_Fields = None\<rparr>) = LevelInfo \<and>
   Level (handleBatch_entry 0 \<lparr>ld_Level = [], ld_Message = ''m'', ld_Source = [],
       ld_Fields = None\<rparr>) = LevelInfo"
  using
    http_level_mapping[of "\<lparr>ld_Level = ''WARN'', ld_Message = ''m'', ld_Source = [],
       ld_Fields = None\<rparr>" 0]
    http_level_mapping[of "\<lparr>ld_Level = ''CRIT'', ld_Message = ''m'', ld_Source = [],
       ld_Fields = None\<rparr>" 0]
    http_level_mapping[of "\<lparr>ld_Level = ''DEBUG'', ld_Message = ''m'', ld_Source = [],
       ld_Fields = None\<rparr>" 0]
    http_level_mapping[of "\<lparr>ld_Level = ''INFO'', ld_Message = ''m'', ld_Source = [],
       ld_Fields = None\<rparr>" 0]
    http_level_mapping[of "\<lparr>ld_Level = ''ERROR'', ld_Message = ''m'', ld_Source = [],
       ld_Fields = None\<rparr>" 0]
    http_level_mapping[of "\<lparr>ld_Level = ''error'', ld_Message = ''m'', ld_Source = [],
       ld_Fields = None\<rparr>" 0]
    http_level_mapping[of "\<lparr>ld_Level = [], ld_Message = ''m'', ld_Source = [],
       ld_Fields = None\<rparr>" 0]
  by simp

text \<open>
  Claim C9. Each record is offered once, without waiting. \<^verbatim>\<open>POST /logs\<close> with a decoded
  body appends its record and answers 202 when the channel has room, and leaves the
  channel as it was and answers 503 when it is full. \<^verbatim>\<open>POST /batch\<close> with a decoded array of
  \<open>n\<close> elements always answers 202 with total \<open>n\<close> and with accepted equal to the number of
  records it appended; the elements a full channel refuses are left out without any
  error. A handler is a function of the channel's state: where a send would have to
  wait (\<open>try_send\<close> gives \<open>None\<close>) it goes on to its answer.
\<close>

theorem http_nonblocking_offer:
  "(length (buf out) < cap out \<longrightarrow>
      handleLogs now out \<lparr>Method = ''POST'', Body = Decoded d\<rparr> =
        (out\<lparr>buf := buf out @ [handleLogs_entry now d]\<rparr>,
         \<lparr>status = 202, payload = AcceptedID (ID (handleLogs_entry now d))\<rparr>)) \<and>
   (\<not> length (buf out) < cap out \<longrightarrow>
      handleLogs now out \<lparr>Method = ''POST'', Body = Decoded d\<rparr> =
        (out, \<lparr>status = 503, payload = PlainText ''Channel full''\<rparr>)) \<and>
   (\<exists>out' accepted.
      handleBatch clock out \<lparr>Method = ''POST'', Body = Decoded logs\<rparr> =
        (out', \<lparr>status = 202, payload = AcceptedBatch (length logs) accepted\<rparr>) \<and>
      accepted = min (length logs) (cap out - length (buf out)) \<and>
      length (buf out') = length (buf out) + accepted \<and>
      buf out' = buf out @
        take accepted (map2 (\<lambda>j d. handleBatch_entry (clock j) d) [0..<length logs] logs))"
proof (intro conjI impI)
  assume "length (buf out) < cap out"
  then show "handleLogs now out \<lparr>Method = ''POST'', Body = Decoded d\<rparr> =
        (out\<lparr>buf := buf out @ [handleLogs_entry now d]\<rparr>,
         \<lparr>status = 202, payload = AcceptedID (ID (handleLogs_entry now d))\<rparr>)"
    by (simp add: handleLogs_def try_send_def Let_def)
next
  assume "\<not> length (buf out) < cap out"
  then show "handleLogs now out \<lparr>Method = ''POST'', Body = Decoded d\<rparr> =
        (out, \<lparr>status = 503, payload = PlainText ''Channel full''\<rparr>)"
    by (simp add: handleLogs_def try_send_def Let_def)
next
  let ?k = "min (length logs) (cap out - length (buf out))"
  let ?es = "map2 (\<lambda>j d. handleBatch_entry (clock j) d) [0..<length logs] logs"
  let ?out' = "out\<lparr>buf := buf out @ take ?k ?es\<rparr>"
  have len: "length ?es = length logs" by simp
  have b: "batchLoop clock 0 out 0 logs = (?out', ?k)"
    using batchLoop_result[of clock 0 out 0 logs] by simp
  have 1: "handleBatch clock out \<lparr>Method = ''POST'', Body = Decoded logs\<rparr> =
        (?out', \<lparr>status = 202, payload = AcceptedBatch (length logs) ?k\<rparr>)"
    by (simp add: handleBatch_def b)
  have 2: "length (buf ?out') = length (buf out) + ?k"
    using len by simp
  have 3: "buf ?out' = buf out @ take ?k ?es" by simp
  from 1 2 3 show "\<exists>out' accepted.
      handleBatch clock out \<lparr>Method = ''POST'', Body = Decoded logs\<rparr> =
        (out', \<lparr>status = 202, payload = AcceptedBatch (length logs) accepted\<rparr>) \<and>
      accepted = min (length logs) (cap out - length (buf out)) \<and>
      length (buf out') = length (buf out) + accepted \<and>
      buf out' = buf out @
        take accepted (map2 (\<lambda>j d. handleBatch_entry (clock j) d) [0..<length logs] logs)"
    by blast
qed

theorem http_nonblocking_offer_witness:
  "snd (handleLogs 0 \<lparr>buf = [], cap = 1\<rparr>
      \<lparr>Method = ''POST'', Body = Decoded \<lparr>ld_Level = ''ERROR'', ld_Message = ''Test error message'',
          ld_Source = ''test-app'', ld_Fields = None\<rparr>\<rparr>)
     = \<lparr>status = 202, payload = AcceptedID []\<rparr> \<and>
   map Message (buf (fst (handleLogs 0 \<lparr>buf = [], cap = 1\<rparr>
      \<lparr>Method = ''POST'', Body = Decoded \<lparr>ld_Level = ''ERROR'', ld_Message = ''Test error message'',
          ld_Source = ''test-app'', ld_Fields = None\<rparr>\<rparr>))) = [''Test error message''] \<and>
   handleLogs 0 \<lparr>buf = [], cap = 0\<rparr>
      \<lparr>Method = ''POST'', Body = Decoded \<lparr>ld_Level = ''ERROR'', ld_Message = ''Test error message'',
          ld_Source = ''test-app'', ld_Fields = None\<rparr>\<rparr>
     = (\<lparr>buf = [], cap = 0\<rparr>, \<lparr>status = 503, payload = PlainText ''Channel full''\<rparr>) \<and>
   snd (handleBatch int \<lparr>buf = [], cap = 2\<rparr>
      \<lparr>Method = ''POST'', Body = Decoded
         [\<lparr>ld_Level = ''INFO'', ld_Message = ''Message 1'', ld_Source = [], ld_Fields = None\<rparr>,
          \<lparr>ld_Level = ''WARNING'', ld_Message = ''Message 2'', ld_Source = [], ld_Fields = None\<rparr>,
          \<lparr>ld_Level = ''ERROR'', ld_Message = ''Message 3'', ld_Source = [], ld_Fields = None\<rparr>]\<rparr>)
     = \<lparr>status = 202, payload = AcceptedBatch 3 2\<rparr>"
proof -
  let ?logs = "[\<lparr>ld_Level = ''INFO'', ld_Message = ''Message 1'', ld_Source = [], ld_Fields = None\<rparr>,
          \<lparr>ld_Level = ''WARNING'', ld_Message = ''Message 2'', ld_Source = [], ld_Fields = None\<rparr>,
          \<lparr>ld_Level = ''ERROR'', ld_Message = ''Message 3'', ld_Source = [], ld_Fields = None\<rparr>]"
  from http_nonblocking_offer[where out = "\<lparr>buf = [], cap = 2\<rparr>" and clock = int and logs = ?logs]
  obtain out' accepted where
    "handleBatch int \<lparr>buf = [], cap = 2\<rparr> \<lparr>Method = ''POST'', Body = Decoded ?logs\<rparr> =
        (out', \<lparr>status = 202, payload = AcceptedBatch (length ?logs) accepted\<rparr>)"
    and "accepted = min (length ?logs) (cap \<lparr>buf = [], cap = 2\<rparr> - length (buf \<lparr>buf = [], cap = 2\<rparr>))"
    by blast
  then have c: "snd (handleBatch int \<lparr>buf = [], cap = 2\<rparr>
      \<lparr>Method = ''POST'', Body = Decoded ?logs\<rparr>) = \<lparr>status = 202, payload = AcceptedBatch 3 2\<rparr>"
    by simp
  let ?d = "\<lparr>ld_Level = ''ERROR'', ld_Message = ''Test error message'',
          ld_Source = ''test-app'', ld_Fields = None\<rparr>"
  have h1: "length (buf \<lparr>buf = [], cap = 1\<rparr>) < cap \<lparr>buf = [], cap = 1\<rparr>" by simp
  have h0: "\<not> length (buf \<lparr>buf = [], cap = 0\<rparr>) < cap \<lparr>buf = [], cap = 0\<rparr>" by simp
  have i: "ID (handleLogs_entry 0 ?d) = []"
    by (simp add: handleLogs_entry_def NewLogEntry_def Let_def)
  have m: "Message (handleLogs_entry 0 ?d) = ''Test error message''"
    by (simp add: handleLogs_entry_def NewLogEntry_def Let_def)
  from http_nonblocking_offer[of "\<lparr>buf = [], cap = 1\<rparr>" 0 ?d] h1
  have a: "handleLogs 0 \<lparr>buf = [], cap = 1\<rparr> \<lparr>Method = ''POST'', Body = Decoded ?d\<rparr> =
        (\<lparr>buf = [], cap = 1\<rparr>\<lparr>buf := buf \<lparr>buf = [], cap = 1\<rparr> @ [handleLogs_entry 0 ?d]\<rparr>,
         \<lparr>status = 202, payload = AcceptedID (ID (handleLogs_entry 0 ?d))\<rparr>)"
    by blast
  from http_nonblocking_offer[of "\<lparr>buf = [], cap = 0\<rparr>" 0 ?d] h0
  have b: "handleLogs 0 \<lparr>buf = [], cap = 0\<rparr> \<lparr>Method = ''POST'', Body = Decoded ?d\<rparr> =
        (\<lparr>buf = [], cap = 0\<rparr>, \<lparr>status = 503, payload = PlainText ''Channel full''\<rparr>)"
    by blast
  from a b c i m show ?thesis by simp
qed

text \<open>
  Claim C4 as stated fails: the constructor leaves the id empty, so the id of a new record
  is neither non-empty nor different from that of another new record.
\<close>

theorem record_id_counterexample:
  "\<not> (ID (NewLogEntry 0) \<noteq> [] \<and> ID (NewLogEntry 0) \<noteq> ID (NewLogEntry 1))"
  by (simp add: NewLogEntry_def)

lemma handleLogs_entry_ID: "ID (handleLogs_entry now d) = []"
  by (cases "ld_Fields d") (simp_all add: handleLogs_entry_def NewLogEntry_def Let_def)

lemma handleBatch_entry_ID: "ID (handleBatch_entry now d) = []"
  by (cases "ld_Fields d") (simp_all add: handleBatch_entry_def NewLogEntry_def Let_def)

lemma handleLogs_accepted:
  assumes "handleLogs now out r = (out', resp)" and "status resp = 202"
  shows "\<exists>d. Body r = Decoded d \<and> buf out' = buf out @ [handleLogs_entry now d] \<and>
             payload resp = AcceptedID (ID (handleLogs_entry now d))"
proof (cases "Method r \<noteq> ''POST''")
  case True
  with assms show ?thesis by (auto simp: handleLogs_def)
next
  case False
  show ?thesis
  proof (cases "Body r")
    case ReadError
    with False assms show ?thesis by (auto simp: handleLogs_def)
  next
    case InvalidJSON
    with False assms show ?thesis by (auto simp: handleLogs_def)
  next
    case (Decoded d)
    with False assms show ?thesis
      by (auto simp: handleLogs_def try_send_def Let_def split: if_splits)
  qed
qed

text \<open>
  Claim C4, amended. No id is assigned at creation: the constructor, and with it every
  source, produces records whose id is the empty string. The 202 answer of
  \<^verbatim>\<open>POST /logs\<close> reports the id of the record it has just appended to the channel, which
  is that empty string.
\<close>

theorem record_id_empty:
  "ID (NewLogEntry now) = [] \<and>
   ID (parseSimpleLine r now line) = [] \<and>
   ID (parseSyslogMessage mapLower sr now raw) = [] \<and>
   ID (handleLogs_entry now d) = [] \<and>
   ID (handleBatch_entry now d) = [] \<and>
   (handleLogs now out req = (out', resp) \<and> status resp = 202 \<longrightarrow>
      (\<exists>e. buf out' = buf out @ [e] \<and> payload resp = AcceptedID (ID e) \<and> ID e = []))"
proof (intro conjI impI)
  show "ID (NewLogEntry now) = []" by (simp add: NewLogEntry_def)
  show "ID (parseSimpleLine r now line) = []" by (simp add: parseSimpleLine_def NewLogEntry_def)
  show "ID (parseSyslogMessage mapLower sr now raw) = []"
    by (simp add: parseSyslogMessage_def NewLogEntry_def Let_def split_def)
  show "ID (handleLogs_entry now d) = []" by (rule handleLogs_entry_ID)
  show "ID (handleBatch_entry now d) = []" by (rule handleBatch_entry_ID)
next
  assume "handleLogs now out req = (out', resp) \<and> status resp = 202"
  then obtain d' where "buf out' = buf out @ [handleLogs_entry now d']"
    and "payload resp = AcceptedID (ID (handleLogs_entry now d'))"
    using handleLogs_accepted[of now out req out' resp] by blast
  then show "\<exists>e. buf out' = buf out @ [e] \<and> payload resp = AcceptedID (ID e) \<and> ID e = []"
    using handleLogs_entry_ID[of now d'] by blast
qed

theorem record_id_empty_witness:
  "payload (snd (handleLogs 7 \<lparr>buf = [], cap = 10\<rparr>
      \<lparr>Method = ''POST'', Body = Decoded \<lparr>ld_Level = ''ERROR'', ld_Message = ''Test error message'',
          ld_Source = ''test-app'', ld_Fields = None\<rparr>\<rparr>)) = AcceptedID []"
proof -
  let ?out = "\<lparr>buf = [], cap = 10\<rparr>"
  let ?req = "\<lparr>Method = ''POST'', Body = Decoded \<lparr>ld_Level = ''ERROR'',
      ld_Message = ''Test error message'', ld_Source = ''test-app'', ld_Fields = None\<rparr>\<rparr>"
  obtain out' resp where h: "handleLogs 7 ?out ?req = (out', resp)"
    by (cases "handleLogs 7 ?out ?req") blast
  then have s: "status resp = 202"
    by (auto simp: handleLogs_def try_send_def Let_def)
  from record_id_empty[of 7 "NewFileReader ''app.log''" "''line''"
      noTables "NewSyslogReceiver noTables ''127.0.0.1:514'' ''udp''" "''<34>Test message''"
      "\<lparr>ld_Level = ''ERROR'', ld_Message = ''Test error message'', ld_Source = ''test-app'',
        ld_Fields = None\<rparr>" ?out ?req out' resp]
    h s
  have "payload resp = AcceptedID []" by auto
  with h show ?thesis by simp
qed

section \<open>The file reader\<close>

text \<open>
  The offset and the bytes emitted move together: one tick, and so the whole loop, keeps
  the difference between the offset and the total length of the emitted messages.
\<close>

lemma readLines_offset:
  "readLines clock content e s = (x, s') \<Longrightarrow>
   offset (fr s') - total_length (emitted s') = offset (fr s) - total_length (emitted s)"
proof (induction clock content e s arbitrary: x s' rule: readLines.induct)
  case (1 clock content e s)
  obtain line err rest where rs: "ReadString (drop (consumed s) content) e = (line, err, rest)"
    by (cases "ReadString (drop (consumed s) content) e") blast
  show ?case
  proof (cases err)
    case (Some er)
    with rs "1.prems" show ?thesis
      by (subst (asm) readLines.simps) (auto split: if_splits)
  next
    case None
    let ?r = "(fr s)\<lparr>offset := offset (fr s) + int (length line)\<rparr>"
    let ?entry = "parseSimpleLine ?r (clock (length (emitted s))) line"
    let ?s1 = "s\<lparr>fr := ?r, consumed := consumed s + length line,
                 emitted := emitted s @ [?entry]\<rparr>"
    from rs None "1.prems" have "readLines clock content e ?s1 = (x, s')"
      by (subst (asm) readLines.simps) (simp add: Let_def)
    from "1.IH"[OF rs[symmetric] refl None refl refl this]
    have "offset (fr s') - total_length (emitted s') =
            offset (fr ?s1) - total_length (emitted ?s1)" .
    then show ?thesis
      by (simp add: total_length_def parseSimpleLine_def)
  qed
qed


lemma FileReader_Stop_offset: "offset (FileReader_Stop r) = offset r"
  by (simp add: FileReader_Stop_def Let_def split: option.splits)

lemma readLoop_offset:
  "offset (fr (readLoop clock s evs)) - total_length (emitted (readLoop clock s evs)) =
   offset (fr s) - total_length (emitted s)"
proof (induction clock s evs rule: readLoop.induct)
  case (1 clock s)
  show ?case by simp
next
  case (2 clock s es)
  show ?case by (simp add: FileReader_Stop_offset)
next
  case (3 clock s content e es)
  obtain x s' where rl: "readLines clock content e s = (x, s')"
    by (cases "readLines clock content e s") blast
  note inv = readLines_offset[OF rl]
  show ?case
  proof (cases x)
    case Break
    with rl "3.IH"[OF rl[symmetric] Break] inv show ?thesis by simp
  next
    case Return
    with rl inv show ?thesis by (simp add: FileReader_Stop_offset)
  qed
qed

text \<open>GetOffset after any run of the loop is the starting offset plus the bytes emitted.\<close>

lemma GetOffset_after_run:
  "GetOffset (fr (readLoop clock (startLoop r) evs)) =
     offset r + total_length (emitted (readLoop clock (startLoop r) evs))"
  using readLoop_offset[of clock "startLoop r" evs]
  by (simp add: GetOffset_def startLoop_def total_length_def)

text \<open>
  When every tick finds only complete lines (the file is empty or ends in a newline),
  the buffered reader's position and the offset stay equal, so a later \<^verbatim>\<open>Start\<close>, which
  seeks to the offset, resumes exactly where the reader stood.
\<close>

lemma ReadString_complete:
  "u \<noteq> [] \<Longrightarrow> last u = CHR 0x0A \<Longrightarrow> \<exists>line rest. ReadString u e = (line, None, rest)"
proof (induction u)
  case Nil
  then show ?case by simp
next
  case (Cons c cs)
  show ?case
  proof (cases "c = CHR 0x0A")
    case True
    then show ?thesis by simp
  next
    case False
    with Cons.prems have "cs \<noteq> []" and "last cs = CHR 0x0A" by (auto split: if_splits)
    from Cons.IH[OF this] obtain l r where "ReadString cs e = (l, None, r)" by blast
    with False show ?thesis by simp
  qed
qed

lemma readLines_in_step:
  assumes "readLines clock content e s = (x, s')"
    and "content = [] \<or> last content = CHR 0x0A"
    and "int (consumed s) = offset (fr s)"
  shows "int (consumed s') = offset (fr s')"
  using assms
proof (induction clock content e s arbitrary: x s' rule: readLines.induct)
  case (1 clock content e s)
  let ?u = "drop (consumed s) content"
  obtain line err rest where rs: "ReadString ?u e = (line, err, rest)"
    by (cases "ReadString ?u e") blast
  show ?case
  proof (cases err)
    case (Some er)
    have "?u = []"
    proof (rule ccontr)
      assume ne: "?u \<noteq> []"
      then have "content \<noteq> []" by auto
      with "1.prems"(2) ne have "last ?u = CHR 0x0A" by simp
      from ReadString_complete[OF ne this, of e] rs Some show False by simp
    qed
    with rs have "line = []" by simp
    with rs Some "1.prems"(1,3) show ?thesis
      by (subst (asm) readLines.simps) (auto split: if_splits)
  next
    case None
    let ?r = "(fr s)\<lparr>offset := offset (fr s) + int (length line)\<rparr>"
    let ?entry = "parseSimpleLine ?r (clock (length (emitted s))) line"
    let ?s1 = "s\<lparr>fr := ?r, consumed := consumed s + length line,
                 emitted := emitted s @ [?entry]\<rparr>"
    from rs None "1.prems"(1) have step: "readLines clock content e ?s1 = (x, s')"
      by (subst (asm) readLines.simps) (simp add: Let_def)
    have inv: "int (consumed ?s1) = offset (fr ?s1)"
      using "1.prems"(3) by simp
    from "1.IH"[OF rs[symmetric] refl None refl refl step "1.prems"(2) inv]
    show ?thesis .
  qed
qed

lemma readLoop_in_step:
  "list_all whole_lines evs \<Longrightarrow> int (consumed s) = offset (fr s) \<Longrightarrow>
   int (consumed (readLoop clock s evs)) = offset (fr (readLoop clock s evs))"
proof (induction clock s evs rule: readLoop.induct)
  case (1 clock s)
  then show ?case by simp
next
  case (2 clock s es)
  then show ?case by (simp add: FileReader_Stop_offset)
next
  case (3 clock s content e es)
  obtain x s' where rl: "readLines clock content e s = (x, s')"
    by (cases "readLines clock content e s") blast
  from "3.prems" have w: "content = [] \<or> last content = CHR 0x0A" and ws: "list_all whole_lines es"
    by simp_all
  note inv = readLines_in_step[OF rl w "3.prems"(2)]
  show ?case
  proof (cases x)
    case Break
    with rl "3.IH"[OF rl[symmetric] Break ws inv] show ?thesis by simp
  next
    case Return
    with rl inv show ?thesis by (simp add: FileReader_Stop_offset)
  qed
qed

lemma Start_in_step:
  "FileReader_Start fs r = (None, r') \<Longrightarrow> 0 \<le> offset r \<Longrightarrow>
   int (consumed (startLoop r')) = offset r' \<and> offset r' = offset r"
  by (auto simp: FileReader_Start_def startLoop_def Let_def split: if_splits option.splits)

lemma restart_resumes:
  assumes "FileReader_Start fs r = (None, r0)" and "0 \<le> offset r"
    and "list_all whole_lines evs"
    and "FileReader_Start fs' (fr (readLoop clock (startLoop r0) evs)) = (None, r1)"
  shows "consumed (startLoop r1) = consumed (readLoop clock (startLoop r0) evs)"
proof -
  let ?s = "readLoop clock (startLoop r0) evs"
  from Start_in_step[OF assms(1,2)] have i0: "int (consumed (startLoop r0)) = offset (fr (startLoop r0))"
    by (simp add: startLoop_def)
  from readLoop_in_step[OF assms(3) i0] have i1: "int (consumed ?s) = offset (fr ?s)" .
  then have "0 \<le> offset (fr ?s)" by simp
  from Start_in_step[OF assms(4) this] i1 show ?thesis by simp
qed

text \<open>
  Claim C1 fails on the code. \<^verbatim>\<open>Start\<close> sets the running flag before it opens the file or
  looks at the protocol, and its error returns do not clear the flag. For a file that
  does not exist, \<^verbatim>\<open>Start\<close> fails with the open error and leaves the reader running, and a
  second \<^verbatim>\<open>Start\<close>, made after the file has appeared, is rejected as already running. The
  syslog receiver does the same on an unsupported protocol, whatever the network. The
  HTTP receiver's \<^verbatim>\<open>Start\<close> reports no setup error for any address.
\<close>

theorem failed_start_leaves_running:
  "FileReader_Start Map.empty (NewFileReader ''app.log'')
     = (Some OpenFailed, (NewFileReader ''app.log'')\<lparr>running := True\<rparr>) \<and>
   fst (FileReader_Start [''app.log'' \<mapsto> \<lparr>bytes = ''line 1\<newline>'', seekable = True\<rparr>]
          (snd (FileReader_Start Map.empty (NewFileReader ''app.log''))))
     = Some AlreadyRunning \<and>
   SyslogReceiver_Start net (NewSyslogReceiver mapLower ''127.0.0.1:514'' ''unix'')
     = (Some UnsupportedProtocol,
        (NewSyslogReceiver mapLower ''127.0.0.1:514'' ''unix'')\<lparr>sr_running := True\<rparr>) \<and>
   fst (SyslogReceiver_Start net
          (snd (SyslogReceiver_Start net (NewSyslogReceiver mapLower ''127.0.0.1:514'' ''unix''))))
     = Some AlreadyRunning \<and>
   fst (HTTPReceiver_Start (NewHTTPReceiver a) out) = None"
proof (intro conjI)
  show "fst (HTTPReceiver_Start (NewHTTPReceiver a) out) = None"
    by (simp add: HTTPReceiver_Start_def NewHTTPReceiver_def)
next
  show "FileReader_Start Map.empty (NewFileReader ''app.log'')
     = (Some OpenFailed, (NewFileReader ''app.log'')\<lparr>running := True\<rparr>)"
    by (simp add: FileReader_Start_def NewFileReader_def)
  then show "fst (FileReader_Start [''app.log'' \<mapsto> \<lparr>bytes = ''line 1\<newline>'', seekable = True\<rparr>]
          (snd (FileReader_Start Map.empty (NewFileReader ''app.log''))))
     = Some AlreadyRunning"
    by (simp add: FileReader_Start_def)
  have p: "protocol (NewSyslogReceiver mapLower ''127.0.0.1:514'' ''unix'') = ''unix''"
    by code_simp
  show s: "SyslogReceiver_Start net (NewSyslogReceiver mapLower ''127.0.0.1:514'' ''unix'')
     = (Some UnsupportedProtocol,
        (NewSyslogReceiver mapLower ''127.0.0.1:514'' ''unix'')\<lparr>sr_running := True\<rparr>)"
    using p by (simp add: SyslogReceiver_Start_def NewSyslogReceiver_def Let_def)
  show "fst (SyslogReceiver_Start net
          (snd (SyslogReceiver_Start net (NewSyslogReceiver mapLower ''127.0.0.1:514'' ''unix''))))
     = Some AlreadyRunning"
    unfolding s by (simp add: SyslogReceiver_Start_def)
qed

text \<open>
  Claim C2 fails on the code. When a tick finds \<open>abc\<close> with no newline, no record is
  emitted, but the three bytes are consumed from the buffered reader and dropped. After
  the newline has been appended, the next tick emits one record whose message is the
  newline alone, not \<open>abc\<close> followed by the newline.
\<close>

theorem partial_line_is_consumed:
  "map Message (emitted (readLoop int
      (startLoop (snd (FileReader_Start (appLog ''abc'') (NewFileReader ''app.log''))))
      [Tick ''abc'' EOF])) = [] \<and>
   consumed (readLoop int
      (startLoop (snd (FileReader_Start (appLog ''abc'') (NewFileReader ''app.log''))))
      [Tick ''abc'' EOF]) = 3 \<and>
   map Message (emitted (readLoop int
      (startLoop (snd (FileReader_Start (appLog ''abc'') (NewFileReader ''app.log''))))
      [Tick ''abc'' EOF, Tick ''abc\<newline>'' EOF])) = [''\<newline>'']"
  by code_simp

text \<open>
  Claim C3 fails on the code. A read error other than end-of-file makes the loop return,
  and the deferred \<^verbatim>\<open>Stop\<close> clears the running flag: the line \<open>two\<close> that a later tick
  would find is never emitted. With end-of-file in place of the error both lines are
  emitted.
\<close>

theorem read_error_ends_loop:
  "running (fr (readLoop int
      (startLoop (snd (FileReader_Start (appLog ''one\<newline>'') (NewFileReader ''app.log''))))
      [Tick ''one\<newline>'' ReadFailure, Tick ''one\<newline>two\<newline>'' EOF])) = False \<and>
   map Message (emitted (readLoop int
      (startLoop (snd (FileReader_Start (appLog ''one\<newline>'') (NewFileReader ''app.log''))))
      [Tick ''one\<newline>'' ReadFailure, Tick ''one\<newline>two\<newline>'' EOF])) = [''one\<newline>''] \<and>
   map Message (emitted (readLoop int
      (startLoop (snd (FileReader_Start (appLog ''one\<newline>'') (NewFileReader ''app.log''))))
      [Tick ''one\<newline>'' EOF, Tick ''one\<newline>two\<newline>'' EOF])) = [''one\<newline>'', ''two\<newline>'']"
  by code_simp

text \<open>
  Claim C8 fails on the code where a tick has seen an incomplete line. The first run sees
  \<open>xyz\<close> and then three complete lines; it emits the newline that completes \<open>xyz\<close> and the
  two lines \<open>ab\<close>, and its offset is 7, the total length of what it emitted. Byte 7 of
  the file is the start of the second \<open>ab\<close> line, so the run restarted from that offset
  emits that line a second time.
\<close>

theorem restart_reemits_line:
  "map Message (emitted (readLoop int
      (startLoop (snd (FileReader_Start (appLog ''xyz'') (NewFileReader ''app.log''))))
      [Tick ''xyz'' EOF, Tick ''xyz\<newline>ab\<newline>ab\<newline>'' EOF, Cancel]))
     = [''\<newline>'', ''ab\<newline>'', ''ab\<newline>''] \<and>
   GetOffset (fr (readLoop int
      (startLoop (snd (FileReader_Start (appLog ''xyz'') (NewFileReader ''app.log''))))
      [Tick ''xyz'' EOF, Tick ''xyz\<newline>ab\<newline>ab\<newline>'' EOF, Cancel])) = 7 \<and>
   drop 7 ''xyz\<newline>ab\<newline>ab\<newline>'' = ''ab\<newline>'' \<and>
   fst (FileReader_Start (appLog ''xyz\<newline>ab\<newline>ab\<newline>'')
      (fr (readLoop int
        (startLoop (snd (FileReader_Start (appLog ''xyz'') (NewFileReader ''app.log''))))
        [Tick ''xyz'' EOF, Tick ''xyz\<newline>ab\<newline>ab\<newline>'' EOF, Cancel]))) = None \<and>
   map Message (emitted (readLoop int
      (startLoop (snd (FileReader_Start (appLog ''xyz\<newline>ab\<newline>ab\<newline>'')
        (fr (readLoop int
          (startLoop (snd (FileReader_Start (appLog ''xyz'') (NewFileReader ''app.log''))))
          [Tick ''xyz'' EOF, Tick ''xyz\<newline>ab\<newline>ab\<newline>'' EOF, Cancel])))))
      [Tick ''xyz\<newline>ab\<newline>ab\<newline>'' EOF])) = [''ab\<newline>'']"
  by code_simp

end
